theory Spec2Isabelle
  imports Main "HOL-Library.Multiset"
begin

section \<open>The logger of \<^verbatim>\<open>logger.hpp\<close> (namespace \<^verbatim>\<open>mayak::logger\<close>)\<close>

subsection \<open>Data\<close>

text \<open>
  The unscoped enumeration \<^verbatim>\<open>LogLevel\<close>. Its enumerators have the values 0 to 5 in the
  order of declaration; the comparison \<^verbatim>\<open>level < logLevel\<close> of the source compares
  these values after integral promotion.
\<close>

datatype LogLevel = TRACE | DEBUG | INFO | WARN | ERROR | FATAL

fun LogLevel_val :: "LogLevel \<Rightarrow> int" where
  "LogLevel_val TRACE = 0"
| "LogLevel_val DEBUG = 1"
| "LogLevel_val INFO = 2"
| "LogLevel_val WARN = 3"
| "LogLevel_val ERROR = 4"
| "LogLevel_val FATAL = 5"

text \<open>
  The process-wide variables of the namespace, together with the characters written to
  \<^verbatim>\<open>std::cout\<close> so far. \<open>logMutex\<close> is \<open>True\<close> while the mutex is owned.
\<close>

record logger_state =
  additionalInfo :: bool
  logLevel :: LogLevel
  logMutex :: bool
  cout :: string

text \<open>
  The initialisers of the three \<^verbatim>\<open>inline\<close> variables: \<^verbatim>\<open>additionalInfo = false\<close>,
  \<^verbatim>\<open>logLevel = INFO\<close>, a default-constructed (unowned) mutex; nothing has been written.
\<close>

definition initial_state :: logger_state where
  "initial_state = \<lparr>additionalInfo = False, logLevel = INFO, logMutex = False, cout = []\<rparr>"

subsection \<open>The output stream\<close>

text \<open>
  \<^verbatim>\<open>std::cout << s\<close> for a character string appends its characters. For an \<^verbatim>\<open>int\<close> it
  appends the decimal numeral (the stream's default formatting: base ten, a minus sign for
  negative values, no padding and no digit grouping). No arithmetic is done on the line
  number, so its width plays no role and it is an \<open>int\<close> here.
\<close>

definition ESC :: char where
  "ESC = CHR 0x1B"

definition newline :: char where
  "newline = CHR 0x0A"

definition digit_char :: "nat \<Rightarrow> char" where
  "digit_char d = ''0123456789'' ! d"

fun dec_nat :: "nat \<Rightarrow> string" where
  "dec_nat n = (if n < 10 then [digit_char n] else dec_nat (n div 10) @ [digit_char (n mod 10)])"

declare dec_nat.simps [simp del]

definition dec_int :: "int \<Rightarrow> string" where
  "dec_int i = (if i < 0 then CHR ''-'' # dec_nat (nat (- i)) else dec_nat (nat i))"

definition cout_put :: "string \<Rightarrow> logger_state \<Rightarrow> logger_state" where
  "cout_put s st = st\<lparr>cout := cout st @ s\<rparr>"

definition cout_put_int :: "int \<Rightarrow> logger_state \<Rightarrow> logger_state" where
  "cout_put_int i st = cout_put (dec_int i) st"

subsection \<open>Setters\<close>

definition setLogLevel :: "LogLevel \<Rightarrow> logger_state \<Rightarrow> logger_state" where
  "setLogLevel level st = st\<lparr>logLevel := level\<rparr>"

definition setAdditionalInfo :: "bool \<Rightarrow> logger_state \<Rightarrow> logger_state" where
  "setAdditionalInfo v st = st\<lparr>additionalInfo := v\<rparr>"

subsection \<open>The colour guard and the lock guard\<close>

text \<open>
  Class \<^verbatim>\<open>Color\<close>: the constructor writes \<^verbatim>\<open>"\033[" << color << "m"\<close>, the destructor
  writes \<^verbatim>\<open>"\033[0m"\<close>.
\<close>

definition Color_ctor :: "string \<Rightarrow> logger_state \<Rightarrow> logger_state" where
  "Color_ctor color st = cout_put ''m'' (cout_put color (cout_put (ESC # ''['') st))"

definition Color_dtor :: "logger_state \<Rightarrow> logger_state" where
  "Color_dtor st = cout_put (ESC # ''[0m'') st"

text \<open>
  \<^verbatim>\<open>std::lock_guard<std::mutex> lock(logMutex)\<close>: the constructor takes the mutex and
  does not return while the mutex is owned (\<open>None\<close>: in one thread of control nobody will
  release it; among several threads the step waits for the owner to release it); the
  destructor releases it.
\<close>

definition lock_guard_ctor :: "logger_state \<Rightarrow> logger_state option" where
  "lock_guard_ctor st = (if logMutex st then None else Some (st\<lparr>logMutex := True\<rparr>))"

definition lock_guard_dtor :: "logger_state \<Rightarrow> logger_state" where
  "lock_guard_dtor st = st\<lparr>logMutex := False\<rparr>"

subsection \<open>The logging routine and its entry points\<close>

text \<open>
  A name cannot begin with an underscore here: \<^verbatim>\<open>_log\<close>, \<^verbatim>\<open>_trace\<close>, ... of the namespace
  \<^verbatim>\<open>logger\<close> are \<open>logger_log\<close>, \<open>logger_trace\<close>, ... The state comes last and is returned;
  \<open>None\<close> is a call that does not return.

  \<^verbatim>\<open>_log\<close>. The early return comes before the lock guard. The two guards are destroyed at
  the end of the scope in the reverse order of their construction: first the colour guard
  (after the newline has been written), then the lock guard.
\<close>

definition logger_log ::
  "LogLevel \<Rightarrow> string \<Rightarrow> string \<Rightarrow> string \<Rightarrow> string \<Rightarrow> int \<Rightarrow> logger_state \<Rightarrow> logger_state option"
where
  "logger_log level levelStr color msg file line st =
     (if LogLevel_val level < LogLevel_val (logLevel st) then Some st
      else case lock_guard_ctor st of
        None \<Rightarrow> None
      | Some s1 \<Rightarrow>
          let s2 = Color_ctor color s1;
              s3 = cout_put msg (cout_put ''] '' (cout_put levelStr (cout_put ''['' s2)));
              s4 = (if additionalInfo s3
                    then cout_put_int line (cout_put '':'' (cout_put file (cout_put '' at '' s3)))
                    else s3);
              s5 = cout_put [newline] s4;
              s6 = Color_dtor s5
          in Some (lock_guard_dtor s6))"

definition logger_trace :: "string \<Rightarrow> string \<Rightarrow> int \<Rightarrow> logger_state \<Rightarrow> logger_state option" where
  "logger_trace msg file line st = logger_log TRACE ''TRACE'' ''90'' msg file line st"

definition logger_debug :: "string \<Rightarrow> string \<Rightarrow> int \<Rightarrow> logger_state \<Rightarrow> logger_state option" where
  "logger_debug msg file line st = logger_log DEBUG ''DEBUG'' ''36'' msg file line st"

definition logger_info :: "string \<Rightarrow> string \<Rightarrow> int \<Rightarrow> logger_state \<Rightarrow> logger_state option" where
  "logger_info msg file line st = logger_log INFO ''INFO'' ''37'' msg file line st"

definition logger_warn :: "string \<Rightarrow> string \<Rightarrow> int \<Rightarrow> logger_state \<Rightarrow> logger_state option" where
  "logger_warn msg file line st = logger_log WARN ''WARN'' ''33'' msg file line st"

definition logger_error :: "string \<Rightarrow> string \<Rightarrow> int \<Rightarrow> logger_state \<Rightarrow> logger_state option" where
  "logger_error msg file line st = logger_log ERROR ''ERROR'' ''31'' msg file line st"

definition logger_fatal :: "string \<Rightarrow> string \<Rightarrow> int \<Rightarrow> logger_state \<Rightarrow> logger_state option" where
  "logger_fatal msg file line st = logger_log FATAL ''FATAL'' ''41;97'' msg file line st"

text \<open>
  The public macros expand, at the place of the call, to a call of the entry point with
  \<^verbatim>\<open>__FILE__\<close> and \<^verbatim>\<open>__LINE__\<close> of that place. A call site is the pair of the two.
\<close>

record call_site =
  site_file :: string
  site_line :: int

definition MAYAK_LOG_TRACE :: "call_site \<Rightarrow> string \<Rightarrow> logger_state \<Rightarrow> logger_state option" where
  "MAYAK_LOG_TRACE site msg st = logger_trace msg (site_file site) (site_line site) st"

definition MAYAK_LOG_DEBUG :: "call_site \<Rightarrow> string \<Rightarrow> logger_state \<Rightarrow> logger_state option" where
  "MAYAK_LOG_DEBUG site msg st = logger_debug msg (site_file site) (site_line site) st"

definition MAYAK_LOG_INFO :: "call_site \<Rightarrow> string \<Rightarrow> logger_state \<Rightarrow> logger_state option" where
  "MAYAK_LOG_INFO site msg st = logger_info msg (site_file site) (site_line site) st"

definition MAYAK_LOG_WARN :: "call_site \<Rightarrow> string \<Rightarrow> logger_state \<Rightarrow> logger_state option" where
  "MAYAK_LOG_WARN site msg st = logger_warn msg (site_file site) (site_line site) st"

definition MAYAK_LOG_ERROR :: "call_site \<Rightarrow> string \<Rightarrow> logger_state \<Rightarrow> logger_state option" where
  "MAYAK_LOG_ERROR site msg st = logger_error msg (site_file site) (site_line site) st"

definition MAYAK_LOG_FATAL :: "call_site \<Rightarrow> string \<Rightarrow> logger_state \<Rightarrow> logger_state option" where
  "MAYAK_LOG_FATAL site msg st = logger_fatal msg (site_file site) (site_line site) st"

text \<open>The macro of each severity, for statements about all six.\<close>

fun MAYAK_LOG :: "LogLevel \<Rightarrow> call_site \<Rightarrow> string \<Rightarrow> logger_state \<Rightarrow> logger_state option" where
  "MAYAK_LOG TRACE = MAYAK_LOG_TRACE"
| "MAYAK_LOG DEBUG = MAYAK_LOG_DEBUG"
| "MAYAK_LOG INFO = MAYAK_LOG_INFO"
| "MAYAK_LOG WARN = MAYAK_LOG_WARN"
| "MAYAK_LOG ERROR = MAYAK_LOG_ERROR"
| "MAYAK_LOG FATAL = MAYAK_LOG_FATAL"

subsection \<open>The line format of the specification\<close>

text \<open>
  The output line as the specification writes it:
  \<^verbatim>\<open><ESC>[<colorCode>m[<LABEL>] <message>[ at <file>:<line>]<newline><ESC>[0m\<close>,
  with the optional part passed as \<open>suffix\<close> (empty when absent).
\<close>

definition spec_site_suffix :: "string \<Rightarrow> int \<Rightarrow> string" where
  "spec_site_suffix file line = '' at '' @ file @ '':'' @ dec_int line"

definition spec_line :: "string \<Rightarrow> string \<Rightarrow> string \<Rightarrow> string \<Rightarrow> string" where
  "spec_line colorCode label message suffix =
     [ESC] @ ''['' @ colorCode @ ''m'' @ ''['' @ label @ ''] '' @ message @ suffix
       @ [newline] @ [ESC] @ ''[0m''"

text \<open>
  The label and the colour code that the entry point of each severity passes to \<^verbatim>\<open>_log\<close>
  (its second and third argument in the six calls of the source), as functions of the
  severity, for statements about all six. The codes are those of the table of the
  specification: 90 gray, 36 cyan, 37 white, 33 yellow, 31 red, 41;97 bright white on a red
  background.
\<close>

fun label_of :: "LogLevel \<Rightarrow> string" where
  "label_of TRACE = ''TRACE''"
| "label_of DEBUG = ''DEBUG''"
| "label_of INFO = ''INFO''"
| "label_of WARN = ''WARN''"
| "label_of ERROR = ''ERROR''"
| "label_of FATAL = ''FATAL''"

fun color_of :: "LogLevel \<Rightarrow> string" where
  "color_of TRACE = ''90''"
| "color_of DEBUG = ''36''"
| "color_of INFO = ''37''"
| "color_of WARN = ''33''"
| "color_of ERROR = ''31''"
| "color_of FATAL = ''41;97''"

subsection \<open>Threads\<close>

text \<open>
  One call of \<^verbatim>\<open>_log\<close>: its six arguments.
\<close>

datatype log_call = LogCall LogLevel string string string string int

fun call_level :: "log_call \<Rightarrow> LogLevel" where
  "call_level (LogCall level levelStr color msg file line) = level"

text \<open>
  The atomic actions of a call after the gate, and the body of \<^verbatim>\<open>_log\<close> as their sequence
  in the order of the source: the constructor of the lock guard; the three insertions of the
  constructor of \<^verbatim>\<open>Color\<close>; the four insertions of the label and the message; the test of
  \<^verbatim>\<open>additionalInfo\<close>, which reads the flag when it is reached; the newline; the insertion
  of the destructor of \<^verbatim>\<open>Color\<close>; the destructor of the lock guard.
\<close>

datatype action = ALock | APut string | APutInt int | ASite string int | AUnlock

fun log_body :: "log_call \<Rightarrow> action list" where
  "log_body (LogCall level levelStr color msg file line) =
     [ALock,
      APut (ESC # ''[''), APut color, APut ''m'',
      APut ''['', APut levelStr, APut ''] '', APut msg,
      ASite file line,
      APut [newline],
      APut (ESC # ''[0m''),
      AUnlock]"

text \<open>
  A thread is the rest of the call it is in and the calls it has still to make. One step of
  a thread acts on the shared state through the functions \<open>logger_log\<close> is made of. With no
  call in progress the step is the gate of the next call (the read of \<^verbatim>\<open>logLevel\<close> and the
  early return). The step that takes the mutex is enabled only when \<open>lock_guard_ctor\<close>
  returns; \<open>None\<close> is a thread that cannot step: blocked on the mutex, or done.
\<close>

type_synonym thread = "action list \<times> log_call list"

fun thread_step :: "thread \<Rightarrow> logger_state \<Rightarrow> (thread \<times> logger_state) option" where
  "thread_step ([], []) st = None"
| "thread_step ([], c # cs) st =
     Some (if LogLevel_val (call_level c) < LogLevel_val (logLevel st) then ([], cs)
           else (log_body c, cs), st)"
| "thread_step (ALock # acts, cs) st =
     (case lock_guard_ctor st of None \<Rightarrow> None | Some st1 \<Rightarrow> Some ((acts, cs), st1))"
| "thread_step (APut s # acts, cs) st = Some ((acts, cs), cout_put s st)"
| "thread_step (APutInt i # acts, cs) st = Some ((acts, cs), cout_put_int i st)"
| "thread_step (ASite file line # acts, cs) st =
     Some (((if additionalInfo st then [APut '' at '', APut file, APut '':'', APutInt line] else [])
             @ acts, cs), st)"
| "thread_step (AUnlock # acts, cs) st = Some ((acts, cs), lock_guard_dtor st)"

text \<open>
  An execution of several threads is an interleaving of their steps, given by the schedule:
  the list of the indices of the threads that step, in order. A schedule that names a thread
  which cannot step is not an execution (\<open>None\<close>). No setter runs during the executions
  considered, so the reads of \<^verbatim>\<open>logLevel\<close> and \<^verbatim>\<open>additionalInfo\<close> outside the mutex race
  with no write.
\<close>

fun run_schedule ::
  "nat list \<Rightarrow> thread list \<times> logger_state \<Rightarrow> (thread list \<times> logger_state) option" where
  "run_schedule [] cfg = Some cfg"
| "run_schedule (i # sched) (ts, st) =
     (if i < length ts
      then (case thread_step (ts ! i) st of
              None \<Rightarrow> None
            | Some (t', st') \<Rightarrow> run_schedule sched (ts[i := t'], st'))
      else None)"

definition finished :: "thread list \<Rightarrow> bool" where
  "finished ts = list_all (\<lambda>t. t = ([], [])) ts"

definition start_threads :: "log_call list list \<Rightarrow> thread list" where
  "start_threads css = map (\<lambda>cs. ([], cs)) css"

text \<open>
  The line of a call as the specification writes it, and the calls that pass the gate at a
  given minimum level.
\<close>

fun call_line :: "bool \<Rightarrow> log_call \<Rightarrow> string" where
  "call_line flag (LogCall level levelStr color msg file line) =
     spec_line color levelStr msg (if flag then spec_site_suffix file line else [])"

definition passes :: "LogLevel \<Rightarrow> log_call \<Rightarrow> bool" where
  "passes lvl c = (\<not> LogLevel_val (call_level c) < LogLevel_val lvl)"

text \<open>
  For the proofs: the characters a list of actions writes; the actions that remain inside
  the critical section (no lock, one unlock, at the end); a bound on the steps a thread has
  left; the three forms of the rest of a call; the characters the owner of the mutex has
  still to write; the lines a thread has still to begin.
\<close>

fun out_of :: "bool \<Rightarrow> action list \<Rightarrow> string" where
  "out_of flag [] = []"
| "out_of flag (ALock # acts) = out_of flag acts"
| "out_of flag (APut s # acts) = s @ out_of flag acts"
| "out_of flag (APutInt i # acts) = dec_int i @ out_of flag acts"
| "out_of flag (ASite file line # acts) =
     (if flag then '' at '' @ file @ '':'' @ dec_int line else []) @ out_of flag acts"
| "out_of flag (AUnlock # acts) = out_of flag acts"

fun critical :: "action list \<Rightarrow> bool" where
  "critical [] = False"
| "critical [a] = (a = AUnlock)"
| "critical (a # acts) = (a \<noteq> ALock \<and> a \<noteq> AUnlock \<and> critical acts)"

fun act_weight :: "action \<Rightarrow> nat" where
  "act_weight (ASite file line) = 5"
| "act_weight a = 1"

fun thread_work :: "thread \<Rightarrow> nat" where
  "thread_work (acts, cs) = sum_list (map act_weight acts) + 17 * length cs"

definition shape :: "thread \<Rightarrow> bool" where
  "shape t = (fst t = [] \<or> (\<exists>c. fst t = log_body c) \<or> critical (fst t))"

definition rest_out :: "bool \<Rightarrow> thread \<Rightarrow> string" where
  "rest_out flag t = (if critical (fst t) then out_of flag (fst t) else [])"

definition thread_lines :: "bool \<Rightarrow> LogLevel \<Rightarrow> thread \<Rightarrow> string list" where
  "thread_lines flag lvl t =
     (if fst t = [] \<or> critical (fst t) then [] else [out_of flag (fst t)])
     @ map (call_line flag) (filter (passes lvl) (snd t))"

text \<open>
  The invariant of the executions: the settings are those of the start; every thread has one
  of the three forms; a thread is inside the critical section exactly when the mutex is
  owned, and then only one is; the output, completed by what the owner has still to write,
  is the output of the start followed by whole lines, which together with the lines still to
  begin are the lines of all passing calls.
\<close>

definition lines_inv ::
  "bool \<Rightarrow> LogLevel \<Rightarrow> string \<Rightarrow> string multiset \<Rightarrow> thread list \<times> logger_state \<Rightarrow> bool" where
  "lines_inv flag lvl c0 L cfg =
     (additionalInfo (snd cfg) = flag \<and> logLevel (snd cfg) = lvl
      \<and> list_all shape (fst cfg)
      \<and> length (filter (\<lambda>t. critical (fst t)) (fst cfg)) = (if logMutex (snd cfg) then 1 else 0)
      \<and> (\<exists>ls. cout (snd cfg) @ concat (map (rest_out flag) (fst cfg)) = c0 @ concat ls
              \<and> mset ls + mset (concat (map (thread_lines flag lvl) (fst cfg))) = L))"

section \<open>Properties\<close>

subsection \<open>Shared lemmas\<close>

lemma logger_log_gated:
  "LogLevel_val level < LogLevel_val (logLevel st) \<Longrightarrow>
     logger_log level levelStr color msg sfile sline st = Some st"
  by (simp add: logger_log_def)

lemma logger_log_blocked:
  "\<not> LogLevel_val level < LogLevel_val (logLevel st) \<Longrightarrow> logMutex st \<Longrightarrow>
     logger_log level levelStr color msg sfile sline st = None"
  by (simp add: logger_log_def lock_guard_ctor_def)

lemma logger_log_emits:
  assumes "\<not> LogLevel_val level < LogLevel_val (logLevel st)" and "\<not> logMutex st"
  shows "logger_log level levelStr color msg sfile sline st =
     Some (st\<lparr>cout := cout st @ spec_line color levelStr msg
                 (if additionalInfo st then spec_site_suffix sfile sline else [])\<rparr>)"
  using assms
  by (cases st)
     (simp add: logger_log_def lock_guard_ctor_def lock_guard_dtor_def Color_ctor_def
        Color_dtor_def cout_put_def cout_put_int_def spec_line_def spec_site_suffix_def Let_def)

lemma spec_line_not_Nil: "spec_line colorCode label message suffix \<noteq> []"
  by (simp add: spec_line_def)

lemma logger_log_changed_cout:
  assumes "logger_log level levelStr color msg sfile sline st = Some st'"
    and "cout st' \<noteq> cout st"
  shows "\<not> LogLevel_val level < LogLevel_val (logLevel st) \<and> \<not> logMutex st"
proof (intro conjI notI)
  assume "LogLevel_val level < LogLevel_val (logLevel st)"
  from logger_log_gated [OF this] assms show False by simp
next
  assume "logMutex st"
  moreover have "\<not> LogLevel_val level < LogLevel_val (logLevel st)"
    using assms logger_log_gated [of level st levelStr color msg sfile sline] by auto
  ultimately show False
    using assms(1) by (simp add: logger_log_blocked)
qed

lemma MAYAK_LOG_unfold:
  "MAYAK_LOG lv site msg st =
     logger_log lv (label_of lv) (color_of lv) msg (site_file site) (site_line site) st"
  by (cases lv)
     (simp_all add: MAYAK_LOG_TRACE_def MAYAK_LOG_DEBUG_def MAYAK_LOG_INFO_def
        MAYAK_LOG_WARN_def MAYAK_LOG_ERROR_def MAYAK_LOG_FATAL_def logger_trace_def
        logger_debug_def logger_info_def logger_warn_def logger_error_def logger_fatal_def)

lemma FATAL_greatest: "\<not> LogLevel_val FATAL < LogLevel_val t"
  by (cases t) simp_all

lemma dec_int_42: "dec_int 42 = ''42''"
  by (simp add: dec_int_def dec_nat.simps digit_char_def)

lemma setLogLevel_fields:
  "logLevel (setLogLevel v st) = v" "additionalInfo (setLogLevel v st) = additionalInfo st"
  "logMutex (setLogLevel v st) = logMutex st" "cout (setLogLevel v st) = cout st"
  by (simp_all add: setLogLevel_def)

lemma logger_log_total:
  assumes "\<not> logMutex st"
  shows "logger_log level levelStr color msg sfile sline st =
     Some (if LogLevel_val level < LogLevel_val (logLevel st) then st
           else st\<lparr>cout := cout st @ spec_line color levelStr msg
                   (if additionalInfo st then spec_site_suffix sfile sline else [])\<rparr>)"
  using assms by (simp add: logger_log_gated logger_log_emits)

subsection \<open>Gating\<close>

text \<open>
  Claim C1. With the mutex free, a call of the logging routine at severity \<open>s\<close> appends
  characters to the output if and only if \<open>s\<close> is not below the current minimum level; a
  call below it returns with the state unchanged. In particular a call at the level just set
  writes, a call one below the level just set does not, and with the level set to
  \<open>FATAL\<close> exactly the calls at \<open>FATAL\<close> write.
\<close>

theorem logger_log_output_iff:
  assumes "\<not> logMutex st"
  shows "((\<exists>st'. logger_log s lbl col msg sfile sline st = Some st' \<and> cout st' \<noteq> cout st)
            \<longleftrightarrow> LogLevel_val (logLevel st) \<le> LogLevel_val s)
       \<and> (LogLevel_val s < LogLevel_val (logLevel st) \<longrightarrow>
            logger_log s lbl col msg sfile sline st = Some st)
       \<and> (\<exists>st'. logger_log t lbl col msg sfile sline (setLogLevel t st) = Some st'
                 \<and> cout st' \<noteq> cout (setLogLevel t st))
       \<and> (LogLevel_val s = LogLevel_val t - 1 \<longrightarrow>
            logger_log s lbl col msg sfile sline (setLogLevel t st) = Some (setLogLevel t st))
       \<and> ((\<exists>st'. logger_log s lbl col msg sfile sline (setLogLevel FATAL st) = Some st'
                 \<and> cout st' \<noteq> cout (setLogLevel FATAL st)) \<longleftrightarrow> s = FATAL)"
proof -
  have nonempty: "spec_line c l m x \<noteq> []" for c l m x
    by (simp add: spec_line_def)
  have pass: "\<exists>st'. logger_log s' lbl col msg sfile sline u = Some st' \<and> cout st' \<noteq> cout u"
    if "\<not> LogLevel_val s' < LogLevel_val (logLevel u)" and "\<not> logMutex u" for s' u
    using logger_log_emits [OF that] nonempty by simp
  have stop: "\<not> (\<exists>st'. logger_log s' lbl col msg sfile sline u = Some st' \<and> cout st' \<noteq> cout u)"
    if "LogLevel_val s' < LogLevel_val (logLevel u)" for s' u
    using logger_log_gated [OF that] by simp
  have free: "\<not> logMutex (setLogLevel v st)" for v
    using assms by (simp add: setLogLevel_def)
  have lev: "logLevel (setLogLevel v st) = v" for v
    by (simp add: setLogLevel_def)
  have c1: "(\<exists>st'. logger_log s lbl col msg sfile sline st = Some st' \<and> cout st' \<noteq> cout st)
            \<longleftrightarrow> LogLevel_val (logLevel st) \<le> LogLevel_val s"
    using pass [of s st] stop [of s st] assms by (cases "LogLevel_val s < LogLevel_val (logLevel st)") auto
  have c2: "LogLevel_val s < LogLevel_val (logLevel st) \<longrightarrow>
            logger_log s lbl col msg sfile sline st = Some st"
    by (simp add: logger_log_gated)
  have c3: "\<exists>st'. logger_log t lbl col msg sfile sline (setLogLevel t st) = Some st'
                 \<and> cout st' \<noteq> cout (setLogLevel t st)"
    using pass [of t "setLogLevel t st"] free lev by simp
  have c4: "LogLevel_val s = LogLevel_val t - 1 \<longrightarrow>
            logger_log s lbl col msg sfile sline (setLogLevel t st) = Some (setLogLevel t st)"
    by (simp add: logger_log_gated lev)
  have fatal_top: "LogLevel_val s < LogLevel_val FATAL \<longleftrightarrow> s \<noteq> FATAL"
    by (cases s) simp_all
  have c5: "(\<exists>st'. logger_log s lbl col msg sfile sline (setLogLevel FATAL st) = Some st'
                 \<and> cout st' \<noteq> cout (setLogLevel FATAL st)) \<longleftrightarrow> s = FATAL"
    using pass [of s "setLogLevel FATAL st"] stop [of s "setLogLevel FATAL st"] free [of FATAL]
      fatal_top
    by (simp only: lev) blast
  from c1 c2 c3 c4 c5 show ?thesis by blast
qed

theorem logger_log_output_iff_witness:
  "\<not> logMutex initial_state
   \<and> LogLevel_val (logLevel initial_state) \<le> LogLevel_val INFO
   \<and> (\<exists>st'. logger_log INFO ''INFO'' ''37'' ''hello'' ''main'' 42 initial_state = Some st'
             \<and> cout st' \<noteq> cout initial_state)
   \<and> LogLevel_val INFO = LogLevel_val WARN - 1
   \<and> logger_log INFO ''INFO'' ''37'' ''hello'' ''main'' 42 (setLogLevel WARN initial_state)
       = Some (setLogLevel WARN initial_state)
   \<and> LogLevel_val DEBUG < LogLevel_val (logLevel initial_state)
   \<and> logger_log DEBUG ''DEBUG'' ''36'' ''hello'' ''main'' 42 initial_state = Some initial_state"
proof -
  have free: "\<not> logMutex initial_state"
    by (simp add: initial_state_def)
  have lev: "LogLevel_val (logLevel initial_state) \<le> LogLevel_val INFO"
    by (simp add: initial_state_def)
  have below: "LogLevel_val INFO = LogLevel_val WARN - 1"
    by simp
  have under: "LogLevel_val DEBUG < LogLevel_val (logLevel initial_state)"
    by (simp add: initial_state_def)
  note at_info = logger_log_output_iff [OF free, where s = INFO and t = WARN
      and lbl = "''INFO''" and col = "''37''" and msg = "''hello''" and sfile = "''main''"
      and sline = 42]
  note at_debug = logger_log_output_iff [OF free, where s = DEBUG and t = WARN
      and lbl = "''DEBUG''" and col = "''36''" and msg = "''hello''" and sfile = "''main''"
      and sline = 42]
  from at_info lev
  have written: "\<exists>st'. logger_log INFO ''INFO'' ''37'' ''hello'' ''main'' 42 initial_state = Some st'
             \<and> cout st' \<noteq> cout initial_state"
    by blast
  from at_info below
  have one_below: "logger_log INFO ''INFO'' ''37'' ''hello'' ''main'' 42
       (setLogLevel WARN initial_state) = Some (setLogLevel WARN initial_state)"
    by blast
  from at_debug under
  have silent: "logger_log DEBUG ''DEBUG'' ''36'' ''hello'' ''main'' 42 initial_state
       = Some initial_state"
    by blast
  from free lev written below one_below under silent show ?thesis
    by blast
qed

subsection \<open>The format of a line\<close>

text \<open>
  Claim C2. A call that passes the gate with the mutex free appends exactly: the escape
  character, \<open>[\<close>, the colour code, \<open>m\<close>, \<open>[\<close>, the label, \<open>] \<close>, the message, then
  (only when the flag is set) \<open> at \<close>, the file, \<open>:\<close> and the decimal line number, then the
  newline, then the reset sequence. Whenever a call changes the output at all, what it
  appended is the line of the specification; the reset sequence comes after the newline with
  and without the site information.
\<close>

theorem logger_log_line_format:
  "(\<not> logMutex st \<and> \<not> LogLevel_val level < LogLevel_val (logLevel st) \<longrightarrow>
      (\<exists>st'. logger_log level levelStr color msg sfile sline st = Some st' \<and>
         cout st' = cout st @ [ESC] @ ''['' @ color @ ''m'' @ ''['' @ levelStr @ ''] '' @ msg
           @ (if additionalInfo st then '' at '' @ sfile @ '':'' @ dec_int sline else [])
           @ [newline] @ [ESC] @ ''[0m''))
   \<and> (\<forall>st'. logger_log level levelStr color msg sfile sline st = Some st' \<and> cout st' \<noteq> cout st \<longrightarrow>
         cout st' = cout st @ spec_line color levelStr msg
           (if additionalInfo st then spec_site_suffix sfile sline else []))
   \<and> spec_line color levelStr msg [] =
        [ESC] @ ''['' @ color @ ''m'' @ ''['' @ levelStr @ ''] '' @ msg @ [newline] @ [ESC] @ ''[0m''
   \<and> spec_line color levelStr msg (spec_site_suffix sfile sline) =
        [ESC] @ ''['' @ color @ ''m'' @ ''['' @ levelStr @ ''] '' @ msg
          @ '' at '' @ sfile @ '':'' @ dec_int sline @ [newline] @ [ESC] @ ''[0m''"
proof (intro conjI impI allI)
  assume "\<not> logMutex st \<and> \<not> LogLevel_val level < LogLevel_val (logLevel st)"
  then have "logger_log level levelStr color msg sfile sline st =
     Some (st\<lparr>cout := cout st @ spec_line color levelStr msg
                 (if additionalInfo st then spec_site_suffix sfile sline else [])\<rparr>)"
    by (simp add: logger_log_emits)
  then show "\<exists>st'. logger_log level levelStr color msg sfile sline st = Some st' \<and>
         cout st' = cout st @ [ESC] @ ''['' @ color @ ''m'' @ ''['' @ levelStr @ ''] '' @ msg
           @ (if additionalInfo st then '' at '' @ sfile @ '':'' @ dec_int sline else [])
           @ [newline] @ [ESC] @ ''[0m''"
    by (simp add: spec_line_def spec_site_suffix_def)
next
  fix st'
  assume a: "logger_log level levelStr color msg sfile sline st = Some st' \<and> cout st' \<noteq> cout st"
  then have "\<not> LogLevel_val level < LogLevel_val (logLevel st) \<and> \<not> logMutex st"
    using logger_log_changed_cout by blast
  then have "logger_log level levelStr color msg sfile sline st =
     Some (st\<lparr>cout := cout st @ spec_line color levelStr msg
                 (if additionalInfo st then spec_site_suffix sfile sline else [])\<rparr>)"
    by (simp add: logger_log_emits)
  with a show "cout st' = cout st @ spec_line color levelStr msg
           (if additionalInfo st then spec_site_suffix sfile sline else [])"
    by auto
next
  show "spec_line color levelStr msg [] =
        [ESC] @ ''['' @ color @ ''m'' @ ''['' @ levelStr @ ''] '' @ msg @ [newline] @ [ESC] @ ''[0m''"
    by (simp add: spec_line_def)
next
  show "spec_line color levelStr msg (spec_site_suffix sfile sline) =
        [ESC] @ ''['' @ color @ ''m'' @ ''['' @ levelStr @ ''] '' @ msg
          @ '' at '' @ sfile @ '':'' @ dec_int sline @ [newline] @ [ESC] @ ''[0m''"
    by (simp add: spec_line_def spec_site_suffix_def)
qed

theorem logger_log_line_format_witness:
  "\<not> logMutex (setAdditionalInfo True initial_state)
   \<and> \<not> LogLevel_val ERROR < LogLevel_val (logLevel (setAdditionalInfo True initial_state))
   \<and> (\<exists>st'. logger_log ERROR ''ERROR'' ''31'' ''boom'' ''main'' 42
               (setAdditionalInfo True initial_state) = Some st'
         \<and> cout st' = CHR 0x1B # ''[31m[ERROR] boom at main:42'' @ [CHR 0x0A, CHR 0x1B] @ ''[0m'')"
proof -
  let ?st = "setAdditionalInfo True initial_state"
  have h: "\<not> logMutex ?st \<and> \<not> LogLevel_val ERROR < LogLevel_val (logLevel ?st)"
    by (simp add: setAdditionalInfo_def initial_state_def)
  have "cout ?st = []" "additionalInfo ?st"
    by (simp_all add: setAdditionalInfo_def initial_state_def)
  with h show ?thesis
    using logger_log_line_format [where st = ?st and level = ERROR and levelStr = "''ERROR''"
        and color = "''31''" and msg = "''boom''" and sfile = "''main''" and sline = 42]
    by (simp add: dec_int_42 ESC_def newline_def)
qed

subsection \<open>Site information\<close>

text \<open>
  Claim C3. With the mutex free and the flag \<open>additionalInfo\<close> false, a logging call at any
  severity either is gated (state unchanged) or appends a line in which the message is
  followed directly by the newline: no \<open> at file:line\<close> part is written. With the flag
  true, every line that is written continues after the message with \<open> at \<close>, the file,
  \<open>:\<close> and the decimal line number that were passed, which for the macros are those of the
  call site.
\<close>

theorem site_info_by_flag:
  assumes "\<not> logMutex st"
  shows "(\<not> additionalInfo st \<longrightarrow>
            logger_log lv lbl col msg sfile sline st =
              Some (if LogLevel_val lv < LogLevel_val (logLevel st) then st
                    else st\<lparr>cout := cout st @ [ESC] @ ''['' @ col @ ''m'' @ ''['' @ lbl @ ''] ''
                            @ msg @ [newline] @ [ESC] @ ''[0m''\<rparr>)
          \<and> MAYAK_LOG lv site msg st =
              Some (if LogLevel_val lv < LogLevel_val (logLevel st) then st
                    else st\<lparr>cout := cout st @ [ESC] @ ''['' @ color_of lv @ ''m'' @ ''[''
                            @ label_of lv @ ''] '' @ msg @ [newline] @ [ESC] @ ''[0m''\<rparr>))
       \<and> (additionalInfo st \<longrightarrow>
            logger_log lv lbl col msg sfile sline st =
              Some (if LogLevel_val lv < LogLevel_val (logLevel st) then st
                    else st\<lparr>cout := cout st @ [ESC] @ ''['' @ col @ ''m'' @ ''['' @ lbl @ ''] ''
                            @ msg @ '' at '' @ sfile @ '':'' @ dec_int sline
                            @ [newline] @ [ESC] @ ''[0m''\<rparr>)
          \<and> MAYAK_LOG lv site msg st =
              Some (if LogLevel_val lv < LogLevel_val (logLevel st) then st
                    else st\<lparr>cout := cout st @ [ESC] @ ''['' @ color_of lv @ ''m'' @ ''[''
                            @ label_of lv @ ''] '' @ msg
                            @ '' at '' @ site_file site @ '':'' @ dec_int (site_line site)
                            @ [newline] @ [ESC] @ ''[0m''\<rparr>))"
proof (intro conjI impI)
  assume off: "\<not> additionalInfo st"
  show "logger_log lv lbl col msg sfile sline st =
              Some (if LogLevel_val lv < LogLevel_val (logLevel st) then st
                    else st\<lparr>cout := cout st @ [ESC] @ ''['' @ col @ ''m'' @ ''['' @ lbl @ ''] ''
                            @ msg @ [newline] @ [ESC] @ ''[0m''\<rparr>)"
    using off by (simp add: logger_log_total [OF assms] spec_line_def)
  show "MAYAK_LOG lv site msg st =
              Some (if LogLevel_val lv < LogLevel_val (logLevel st) then st
                    else st\<lparr>cout := cout st @ [ESC] @ ''['' @ color_of lv @ ''m'' @ ''[''
                            @ label_of lv @ ''] '' @ msg @ [newline] @ [ESC] @ ''[0m''\<rparr>)"
    using off by (simp add: MAYAK_LOG_unfold logger_log_total [OF assms] spec_line_def)
next
  assume on: "additionalInfo st"
  show "logger_log lv lbl col msg sfile sline st =
              Some (if LogLevel_val lv < LogLevel_val (logLevel st) then st
                    else st\<lparr>cout := cout st @ [ESC] @ ''['' @ col @ ''m'' @ ''['' @ lbl @ ''] ''
                            @ msg @ '' at '' @ sfile @ '':'' @ dec_int sline
                            @ [newline] @ [ESC] @ ''[0m''\<rparr>)"
    using on by (simp add: logger_log_total [OF assms] spec_line_def spec_site_suffix_def)
  show "MAYAK_LOG lv site msg st =
              Some (if LogLevel_val lv < LogLevel_val (logLevel st) then st
                    else st\<lparr>cout := cout st @ [ESC] @ ''['' @ color_of lv @ ''m'' @ ''[''
                            @ label_of lv @ ''] '' @ msg
                            @ '' at '' @ site_file site @ '':'' @ dec_int (site_line site)
                            @ [newline] @ [ESC] @ ''[0m''\<rparr>)"
    using on
    by (simp add: MAYAK_LOG_unfold logger_log_total [OF assms] spec_line_def spec_site_suffix_def)
qed

theorem site_info_by_flag_witness:
  "\<not> logMutex (setLogLevel WARN initial_state)
   \<and> \<not> additionalInfo (setLogLevel WARN initial_state)
   \<and> MAYAK_LOG INFO \<lparr>site_file = ''main'', site_line = 42\<rparr> ''hello''
        (setLogLevel WARN initial_state) = Some (setLogLevel WARN initial_state)
   \<and> MAYAK_LOG WARN \<lparr>site_file = ''main'', site_line = 42\<rparr> ''low disk''
        (setLogLevel WARN initial_state) =
      Some ((setLogLevel WARN initial_state)
              \<lparr>cout := CHR 0x1B # ''[33m[WARN] low disk'' @ [CHR 0x0A, CHR 0x1B] @ ''[0m''\<rparr>)
   \<and> \<not> logMutex (setAdditionalInfo True (setLogLevel TRACE initial_state))
   \<and> additionalInfo (setAdditionalInfo True (setLogLevel TRACE initial_state))
   \<and> MAYAK_LOG ERROR \<lparr>site_file = ''main'', site_line = 42\<rparr> ''boom''
        (setAdditionalInfo True (setLogLevel TRACE initial_state)) =
      Some ((setAdditionalInfo True (setLogLevel TRACE initial_state))
              \<lparr>cout := CHR 0x1B # ''[31m[ERROR] boom at main:42'' @ [CHR 0x0A, CHR 0x1B] @ ''[0m''\<rparr>)"
proof -
  let ?off = "setLogLevel WARN initial_state"
  let ?on = "setAdditionalInfo True (setLogLevel TRACE initial_state)"
  let ?site = "\<lparr>site_file = ''main'', site_line = 42\<rparr>"
  have off: "\<not> logMutex ?off" "\<not> additionalInfo ?off" "logLevel ?off = WARN" "cout ?off = []"
    by (simp_all add: setLogLevel_def initial_state_def)
  have on: "\<not> logMutex ?on" "additionalInfo ?on" "logLevel ?on = TRACE" "cout ?on = []"
    by (simp_all add: setLogLevel_def setAdditionalInfo_def initial_state_def)
  have "MAYAK_LOG INFO ?site ''hello'' ?off = Some ?off"
    using site_info_by_flag [OF off(1), where lv = INFO and site = ?site and msg = "''hello''"]
      off(2,3)
    by simp
  moreover have "MAYAK_LOG WARN ?site ''low disk'' ?off =
      Some (?off\<lparr>cout := CHR 0x1B # ''[33m[WARN] low disk'' @ [CHR 0x0A, CHR 0x1B] @ ''[0m''\<rparr>)"
    using site_info_by_flag [OF off(1), where lv = WARN and site = ?site and msg = "''low disk''"]
      off(2,3,4)
    by (simp add: ESC_def newline_def)
  moreover have "MAYAK_LOG ERROR ?site ''boom'' ?on =
      Some (?on\<lparr>cout := CHR 0x1B # ''[31m[ERROR] boom at main:42'' @ [CHR 0x0A, CHR 0x1B] @ ''[0m''\<rparr>)"
    using site_info_by_flag [OF on(1), where lv = ERROR and site = ?site and msg = "''boom''"]
      on(2,3,4)
    by (simp add: ESC_def newline_def dec_int_42)
  ultimately show ?thesis
    using off(1,2) on(1,2) by blast
qed

subsection \<open>The six entry points\<close>

text \<open>
  Claim C4. Each of \<^verbatim>\<open>_trace\<close>, \<^verbatim>\<open>_debug\<close>, \<^verbatim>\<open>_info\<close>, \<^verbatim>\<open>_warn\<close>, \<^verbatim>\<open>_error\<close> and
  \<^verbatim>\<open>_fatal\<close> is a call of the one gated routine with its own severity, its label
  \<open>TRACE\<close>, \<open>DEBUG\<close>, \<open>INFO\<close>, \<open>WARN\<close>, \<open>ERROR\<close> or \<open>FATAL\<close>, its colour code, and
  the caller's message, file and line as they were passed; each macro passes the file and
  the line of its call site.
\<close>

theorem entry_points_delegate:
  "logger_trace msg sfile sline st = logger_log TRACE ''TRACE'' ''90'' msg sfile sline st
   \<and> logger_debug msg sfile sline st = logger_log DEBUG ''DEBUG'' ''36'' msg sfile sline st
   \<and> logger_info msg sfile sline st = logger_log INFO ''INFO'' ''37'' msg sfile sline st
   \<and> logger_warn msg sfile sline st = logger_log WARN ''WARN'' ''33'' msg sfile sline st
   \<and> logger_error msg sfile sline st = logger_log ERROR ''ERROR'' ''31'' msg sfile sline st
   \<and> logger_fatal msg sfile sline st = logger_log FATAL ''FATAL'' ''41;97'' msg sfile sline st
   \<and> MAYAK_LOG_TRACE site msg st =
        logger_log TRACE ''TRACE'' ''90'' msg (site_file site) (site_line site) st
   \<and> MAYAK_LOG_DEBUG site msg st =
        logger_log DEBUG ''DEBUG'' ''36'' msg (site_file site) (site_line site) st
   \<and> MAYAK_LOG_INFO site msg st =
        logger_log INFO ''INFO'' ''37'' msg (site_file site) (site_line site) st
   \<and> MAYAK_LOG_WARN site msg st =
        logger_log WARN ''WARN'' ''33'' msg (site_file site) (site_line site) st
   \<and> MAYAK_LOG_ERROR site msg st =
        logger_log ERROR ''ERROR'' ''31'' msg (site_file site) (site_line site) st
   \<and> MAYAK_LOG_FATAL site msg st =
        logger_log FATAL ''FATAL'' ''41;97'' msg (site_file site) (site_line site) st"
  unfolding MAYAK_LOG_TRACE_def MAYAK_LOG_DEBUG_def MAYAK_LOG_INFO_def MAYAK_LOG_WARN_def
    MAYAK_LOG_ERROR_def MAYAK_LOG_FATAL_def logger_trace_def logger_debug_def logger_info_def
    logger_warn_def logger_error_def logger_fatal_def
  by (intro conjI refl)

subsection \<open>The initial state\<close>

text \<open>
  Claim C5. Before any setter is called the minimum level is \<open>INFO\<close> and the flag is false;
  so a \<open>TRACE\<close> or \<open>DEBUG\<close> call in the initial state returns with nothing written, and an
  \<open>INFO\<close> call writes its line with the newline directly after the message (no site
  information).
\<close>

theorem initial_state_defaults:
  "logLevel initial_state = INFO
   \<and> additionalInfo initial_state = False
   \<and> logger_trace msg sfile sline initial_state = Some initial_state
   \<and> logger_debug msg sfile sline initial_state = Some initial_state
   \<and> logger_info msg sfile sline initial_state =
        Some (initial_state\<lparr>cout := [ESC] @ ''[37m[INFO] '' @ msg @ [newline] @ [ESC] @ ''[0m''\<rparr>)"
proof -
  have lev: "logLevel initial_state = INFO" and flag: "additionalInfo initial_state = False"
    and free: "\<not> logMutex initial_state" and out: "cout initial_state = []"
    by (simp_all add: initial_state_def)
  have tr: "logger_trace msg sfile sline initial_state = Some initial_state"
    unfolding logger_trace_def by (rule logger_log_gated) (simp add: lev)
  have db: "logger_debug msg sfile sline initial_state = Some initial_state"
    unfolding logger_debug_def by (rule logger_log_gated) (simp add: lev)
  have "logger_info msg sfile sline initial_state =
        Some (initial_state\<lparr>cout := cout initial_state @ spec_line ''37'' ''INFO'' msg
                 (if additionalInfo initial_state then spec_site_suffix sfile sline else [])\<rparr>)"
    unfolding logger_info_def by (rule logger_log_emits) (simp_all add: lev free)
  then have inf: "logger_info msg sfile sline initial_state =
        Some (initial_state\<lparr>cout := [ESC] @ ''[37m[INFO] '' @ msg @ [newline] @ [ESC] @ ''[0m''\<rparr>)"
    by (simp add: flag out spec_line_def)
  from lev flag tr db inf show ?thesis by blast
qed

subsection \<open>The setters\<close>

text \<open>
  Claim C6. \<^verbatim>\<open>setLogLevel\<close> assigns its argument to the minimum level and changes nothing
  else: the flag, the output and the mutex are as before, and the result is only the updated
  state. \<^verbatim>\<open>setAdditionalInfo\<close> likewise assigns the flag and leaves the minimum level, the
  output and the mutex as they were.
\<close>

theorem setters_frame:
  "logLevel (setLogLevel v st) = v
   \<and> additionalInfo (setLogLevel v st) = additionalInfo st
   \<and> cout (setLogLevel v st) = cout st
   \<and> logMutex (setLogLevel v st) = logMutex st
   \<and> setLogLevel v st = st\<lparr>logLevel := v\<rparr>
   \<and> additionalInfo (setAdditionalInfo b st) = b
   \<and> logLevel (setAdditionalInfo b st) = logLevel st
   \<and> cout (setAdditionalInfo b st) = cout st
   \<and> logMutex (setAdditionalInfo b st) = logMutex st
   \<and> setAdditionalInfo b st = st\<lparr>additionalInfo := b\<rparr>"
  by (simp add: setLogLevel_def setAdditionalInfo_def)

text \<open>
  Claim C7. Calling \<^verbatim>\<open>setLogLevel\<close> twice in a row with the same severity gives the same
  state and the same output as calling it once, and every later logging call behaves the
  same after either.
\<close>

theorem setLogLevel_idempotent:
  "setLogLevel v (setLogLevel v st) = setLogLevel v st
   \<and> cout (setLogLevel v (setLogLevel v st)) = cout (setLogLevel v st)
   \<and> logger_log s lbl col msg sfile sline (setLogLevel v (setLogLevel v st)) =
       logger_log s lbl col msg sfile sline (setLogLevel v st)"
proof -
  have "setLogLevel v (setLogLevel v st) = setLogLevel v st"
    by (simp add: setLogLevel_def)
  then show ?thesis by simp
qed

subsection \<open>The fatal entry point\<close>

text \<open>
  Claim C9. \<^verbatim>\<open>_fatal\<close> has no control flow of its own: with the mutex free it returns,
  for every message, file and line and at every minimum level, having appended its line and
  left the level and the flag unchanged and the mutex free, so that the logging call that
  follows returns as well. It is the same routine as the other five entry points, called with
  another severity, label and colour code.
\<close>

theorem logger_fatal_returns:
  assumes "\<not> logMutex st"
  shows "(\<exists>st'. logger_fatal msg sfile sline st = Some st'
            \<and> cout st' = cout st @ spec_line ''41;97'' ''FATAL'' msg
                 (if additionalInfo st then spec_site_suffix sfile sline else [])
            \<and> logLevel st' = logLevel st \<and> additionalInfo st' = additionalInfo st
            \<and> \<not> logMutex st'
            \<and> (\<exists>st''. logger_log lv lbl col msg2 sfile2 sline2 st' = Some st''))
       \<and> logger_fatal = logger_log FATAL ''FATAL'' ''41;97''
       \<and> logger_error = logger_log ERROR ''ERROR'' ''31''
       \<and> logger_warn = logger_log WARN ''WARN'' ''33''
       \<and> logger_info = logger_log INFO ''INFO'' ''37''
       \<and> logger_debug = logger_log DEBUG ''DEBUG'' ''36''
       \<and> logger_trace = logger_log TRACE ''TRACE'' ''90''"
proof -
  let ?st' = "st\<lparr>cout := cout st @ spec_line ''41;97'' ''FATAL'' msg
                 (if additionalInfo st then spec_site_suffix sfile sline else [])\<rparr>"
  have ret: "logger_fatal msg sfile sline st = Some ?st'"
    unfolding logger_fatal_def using FATAL_greatest assms by (rule logger_log_emits)
  have free': "\<not> logMutex ?st'"
    using assms by simp
  have "\<exists>st''. logger_log lv lbl col msg2 sfile2 sline2 ?st' = Some st''"
    using logger_log_total [OF free'] by blast
  with ret have first: "\<exists>st'. logger_fatal msg sfile sline st = Some st'
            \<and> cout st' = cout st @ spec_line ''41;97'' ''FATAL'' msg
                 (if additionalInfo st then spec_site_suffix sfile sline else [])
            \<and> logLevel st' = logLevel st \<and> additionalInfo st' = additionalInfo st
            \<and> \<not> logMutex st'
            \<and> (\<exists>st''. logger_log lv lbl col msg2 sfile2 sline2 st' = Some st'')"
    using assms by simp
  have same: "logger_fatal = logger_log FATAL ''FATAL'' ''41;97''"
    "logger_error = logger_log ERROR ''ERROR'' ''31''"
    "logger_warn = logger_log WARN ''WARN'' ''33''"
    "logger_info = logger_log INFO ''INFO'' ''37''"
    "logger_debug = logger_log DEBUG ''DEBUG'' ''36''"
    "logger_trace = logger_log TRACE ''TRACE'' ''90''"
    by (intro ext, simp add: logger_fatal_def logger_error_def logger_warn_def logger_info_def
          logger_debug_def logger_trace_def)+
  from first same show ?thesis by blast
qed

theorem logger_fatal_returns_witness:
  "\<not> logMutex (setLogLevel FATAL initial_state)
   \<and> (\<exists>st'. logger_fatal ''disk gone'' ''main'' 42 (setLogLevel FATAL initial_state) = Some st'
         \<and> cout st' = CHR 0x1B # ''[41;97m[FATAL] disk gone'' @ [CHR 0x0A, CHR 0x1B] @ ''[0m''
         \<and> (\<exists>st''. logger_log FATAL ''FATAL'' ''41;97'' ''again'' ''main'' 43 st' = Some st''))"
proof -
  let ?st = "setLogLevel FATAL initial_state"
  have free: "\<not> logMutex ?st" and flag: "\<not> additionalInfo ?st" and out: "cout ?st = []"
    by (simp_all add: setLogLevel_def initial_state_def)
  have line: "spec_line ''41;97'' ''FATAL'' ''disk gone'' [] =
      CHR 0x1B # ''[41;97m[FATAL] disk gone'' @ [CHR 0x0A, CHR 0x1B] @ ''[0m''"
    by (simp add: spec_line_def ESC_def newline_def)
  from logger_fatal_returns [OF free, where msg = "''disk gone''" and sfile = "''main''"
      and sline = 42 and lv = FATAL and lbl = "''FATAL''" and col = "''41;97''"
      and ?msg2.0 = "''again''" and ?sfile2.0 = "''main''" and ?sline2.0 = 43]
  have "\<exists>st'. logger_fatal ''disk gone'' ''main'' 42 ?st = Some st'
         \<and> cout st' = cout ?st @ spec_line ''41;97'' ''FATAL'' ''disk gone''
              (if additionalInfo ?st then spec_site_suffix ''main'' 42 else [])
         \<and> (\<exists>st''. logger_log FATAL ''FATAL'' ''41;97'' ''again'' ''main'' 43 st' = Some st'')"
    by blast
  then have "\<exists>st'. logger_fatal ''disk gone'' ''main'' 42 ?st = Some st'
         \<and> cout st' = CHR 0x1B # ''[41;97m[FATAL] disk gone'' @ [CHR 0x0A, CHR 0x1B] @ ''[0m''
         \<and> (\<exists>st''. logger_log FATAL ''FATAL'' ''41;97'' ''again'' ''main'' 43 st' = Some st'')"
    unfolding if_not_P [OF flag] out line by simp
  with free show ?thesis by blast
qed

subsection \<open>Monotonicity of the gate\<close>

text \<open>
  Claim C10. If a call at severity \<open>s\<close> writes when the minimum level is \<open>t\<close>, then the same
  call writes, and writes the same characters, when the minimum level is any \<open>t'\<close> not above
  \<open>t\<close>.
\<close>

theorem gating_monotone:
  assumes "LogLevel_val t' \<le> LogLevel_val t"
    and "\<exists>st1. logger_log s lbl col msg sfile sline (setLogLevel t st) = Some st1
            \<and> cout st1 \<noteq> cout (setLogLevel t st)"
  shows "\<exists>st1 st2. logger_log s lbl col msg sfile sline (setLogLevel t st) = Some st1
            \<and> logger_log s lbl col msg sfile sline (setLogLevel t' st) = Some st2
            \<and> cout st2 \<noteq> cout (setLogLevel t' st)
            \<and> cout st2 = cout st1"
proof -
  from assms(2) obtain st1
    where r1: "logger_log s lbl col msg sfile sline (setLogLevel t st) = Some st1"
      and ch: "cout st1 \<noteq> cout (setLogLevel t st)"
    by blast
  from logger_log_changed_cout [OF r1 ch]
  have pass: "\<not> LogLevel_val s < LogLevel_val t" and free: "\<not> logMutex st"
    by (simp_all add: setLogLevel_fields)
  from pass assms(1) have pass': "\<not> LogLevel_val s < LogLevel_val (logLevel (setLogLevel t' st))"
    by (simp add: setLogLevel_fields)
  have free': "\<not> logMutex (setLogLevel t' st)"
    using free by (simp add: setLogLevel_fields)
  have pass1: "\<not> LogLevel_val s < LogLevel_val (logLevel (setLogLevel t st))"
    using pass by (simp add: setLogLevel_fields)
  have free1: "\<not> logMutex (setLogLevel t st)"
    using free by (simp add: setLogLevel_fields)
  note e1 = logger_log_emits [OF pass1 free1, of lbl col msg sfile sline]
  note e2 = logger_log_emits [OF pass' free', of lbl col msg sfile sline]
  from r1 e1 have c1: "cout st1 = cout st @ spec_line col lbl msg
                 (if additionalInfo st then spec_site_suffix sfile sline else [])"
    by (auto simp add: setLogLevel_fields)
  obtain st2 where r2: "logger_log s lbl col msg sfile sline (setLogLevel t' st) = Some st2"
    and c2: "cout st2 = cout st @ spec_line col lbl msg
                 (if additionalInfo st then spec_site_suffix sfile sline else [])"
    using e2 by (simp add: setLogLevel_fields)
  have "cout st2 \<noteq> cout (setLogLevel t' st)"
    using c2 spec_line_not_Nil by (simp add: setLogLevel_fields)
  with r1 r2 c1 c2 show ?thesis by auto
qed

theorem gating_monotone_witness:
  "LogLevel_val DEBUG \<le> LogLevel_val WARN
   \<and> (\<exists>st1. logger_log ERROR ''ERROR'' ''31'' ''boom'' ''main'' 42 (setLogLevel WARN initial_state)
            = Some st1 \<and> cout st1 \<noteq> cout (setLogLevel WARN initial_state))
   \<and> (\<exists>st2. logger_log ERROR ''ERROR'' ''31'' ''boom'' ''main'' 42 (setLogLevel DEBUG initial_state)
            = Some st2 \<and> cout st2 \<noteq> cout (setLogLevel DEBUG initial_state))"
proof -
  have le: "LogLevel_val DEBUG \<le> LogLevel_val WARN"
    by simp
  have pass: "\<not> LogLevel_val ERROR < LogLevel_val (logLevel (setLogLevel WARN initial_state))"
    and free: "\<not> logMutex (setLogLevel WARN initial_state)"
    by (simp_all add: setLogLevel_def initial_state_def)
  have before: "\<exists>st1. logger_log ERROR ''ERROR'' ''31'' ''boom'' ''main'' 42
            (setLogLevel WARN initial_state) = Some st1
            \<and> cout st1 \<noteq> cout (setLogLevel WARN initial_state)"
    using logger_log_emits [OF pass free] spec_line_not_Nil by simp
  from gating_monotone [OF le before]
  have "\<exists>st2. logger_log ERROR ''ERROR'' ''31'' ''boom'' ''main'' 42
            (setLogLevel DEBUG initial_state) = Some st2
            \<and> cout st2 \<noteq> cout (setLogLevel DEBUG initial_state)"
    by blast
  with le before show ?thesis by blast
qed

subsection \<open>Concurrent calls\<close>

text \<open>
  The steps of a call, run by a thread that is alone, are \<open>logger_log\<close>: the call returns
  with state \<open>st'\<close> exactly when some number of steps of the thread ends the call in \<open>st'\<close>.
\<close>

lemma out_of_log_body: "out_of flag (log_body c) = call_line flag c"
  by (cases c) (simp add: spec_line_def spec_site_suffix_def)

lemma log_body_not_critical: "\<not> critical (log_body c)" "log_body c \<noteq> []"
  by (cases c, simp)+

lemma log_body_Cons:
  assumes "log_body c = a # acts"
  shows "a = ALock" and "critical acts" and "acts \<noteq> []"
  using assms by (cases c, auto)+

lemma Cons_log_body:
  assumes "a # acts = log_body c"
  shows "a = ALock" and "critical acts" and "acts \<noteq> []"
  using assms [symmetric] by (rule log_body_Cons)+

lemma alone_unique:
  assumes "run_schedule (replicate n 0) ([t], st) = Some ([([], [])], s1)"
    and "run_schedule (replicate m 0) ([t], st) = Some ([([], [])], s2)"
  shows "s1 = s2"
  using assms
proof (induction n arbitrary: m t st)
  case 0
  then show ?case by (cases m) simp_all
next
  case (Suc n)
  show ?case
  proof (cases m)
    case 0
    with Suc.prems show ?thesis by simp
  next
    case (Suc m')
    from Suc.prems(1) obtain t' st' where s: "thread_step t st = Some (t', st')"
      and r1: "run_schedule (replicate n 0) ([t'], st') = Some ([([], [])], s1)"
      by (auto split: option.splits)
    from Suc.prems(2) Suc s have r2: "run_schedule (replicate m' 0) ([t'], st') = Some ([([], [])], s2)"
      by simp
    from Suc.IH [OF r1 r2] show ?thesis .
  qed
qed

lemma alone_gated:
  assumes "LogLevel_val level < LogLevel_val (logLevel st)"
  shows "run_schedule (replicate 1 0) ([([], [LogCall level levelStr color msg sfile sline])], st)
           = Some ([([], [])], st)"
  using assms by simp

lemma alone_emits:
  assumes "\<not> LogLevel_val level < LogLevel_val (logLevel st)" and "\<not> logMutex st"
  shows "run_schedule (replicate (if additionalInfo st then 17 else 13) 0)
           ([([], [LogCall level levelStr color msg sfile sline])], st)
           = Some ([([], [])], st\<lparr>cout := cout st @ spec_line color levelStr msg
                 (if additionalInfo st then spec_site_suffix sfile sline else [])\<rparr>)"
  using assms
  by (cases st)
     (simp add: eval_nat_numeral lock_guard_ctor_def lock_guard_dtor_def cout_put_def
        cout_put_int_def spec_line_def spec_site_suffix_def)

lemma alone_blocked:
  assumes "\<not> LogLevel_val level < LogLevel_val (logLevel st)" and "logMutex st"
  shows "run_schedule (replicate n 0) ([([], [LogCall level levelStr color msg sfile sline])], st)
           \<noteq> Some ([([], [])], st')"
proof (cases n)
  case 0
  then show ?thesis by simp
next
  case (Suc k)
  with assms show ?thesis
    by (cases k) (simp_all add: lock_guard_ctor_def)
qed

lemma logger_log_as_steps:
  "logger_log level levelStr color msg sfile sline st = Some st' \<longleftrightarrow>
     (\<exists>n. run_schedule (replicate n 0)
            ([([], [LogCall level levelStr color msg sfile sline])], st) = Some ([([], [])], st'))"
proof (cases "LogLevel_val level < LogLevel_val (logLevel st)")
  case True
  note run = alone_gated [OF True, of levelStr color msg sfile sline]
  have "logger_log level levelStr color msg sfile sline st = Some st"
    using True by (rule logger_log_gated)
  moreover have "st' = st"
    if "run_schedule (replicate n 0)
          ([([], [LogCall level levelStr color msg sfile sline])], st) = Some ([([], [])], st')"
    for n
    using alone_unique [OF that run] .
  ultimately show ?thesis
    using run by (metis option.inject)
next
  case False
  show ?thesis
  proof (cases "logMutex st")
    case True
    have "logger_log level levelStr color msg sfile sline st = None"
      using False True by (rule logger_log_blocked)
    with alone_blocked [OF False True] show ?thesis
      by simp
  next
    case free: False
    let ?st = "st\<lparr>cout := cout st @ spec_line color levelStr msg
                 (if additionalInfo st then spec_site_suffix sfile sline else [])\<rparr>"
    note run = alone_emits [OF False free, of levelStr color msg sfile sline]
    have "logger_log level levelStr color msg sfile sline st = Some ?st"
      using False free by (rule logger_log_emits)
    moreover have "st' = ?st"
      if "run_schedule (replicate n 0)
            ([([], [LogCall level levelStr color msg sfile sline])], st) = Some ([([], [])], st')"
      for n
      using alone_unique [OF that run] .
    ultimately show ?thesis
      using run by (metis option.inject)
  qed
qed

text \<open>The invariant holds at the start and is kept by every step.\<close>

lemma critical_Cons:
  "critical (a # acts) \<longleftrightarrow> (if acts = [] then a = AUnlock else a \<noteq> ALock \<and> a \<noteq> AUnlock \<and> critical acts)"
  by (cases acts) simp_all

lemma critical_site:
  "critical acts \<Longrightarrow> critical ([APut s1, APut s2, APut s3, APutInt i] @ acts)"
  by (cases acts) simp_all

lemma thread_step_settings:
  assumes "thread_step t st = Some (t', st')"
  shows "additionalInfo st' = additionalInfo st \<and> logLevel st' = logLevel st"
  using assms
  by (cases "(t, st)" rule: thread_step.cases)
     (auto simp add: cout_put_def cout_put_int_def lock_guard_ctor_def lock_guard_dtor_def
        split: if_splits option.splits)

lemma thread_step_shape:
  assumes "shape t" and "thread_step t st = Some (t', st')"
  shows "shape t'"
  using assms
  by (cases "(t, st)" rule: thread_step.cases)
     (auto simp add: shape_def critical_Cons critical_site
        dest: log_body_Cons Cons_log_body split: if_splits option.splits)

lemma thread_step_effect:
  assumes "shape t" and "thread_step t st = Some (t', st')"
    and "additionalInfo st = flag" and "logLevel st = lvl"
  shows "(critical (fst t) \<and> cout st' @ rest_out flag t' = cout st @ rest_out flag t
            \<and> thread_lines flag lvl t' = thread_lines flag lvl t
            \<and> (if critical (fst t') then logMutex st' = logMutex st else \<not> logMutex st'))
       \<or> (\<not> critical (fst t) \<and> \<not> critical (fst t') \<and> cout st' = cout st
            \<and> logMutex st' = logMutex st
            \<and> thread_lines flag lvl t' = thread_lines flag lvl t)
       \<or> (\<not> critical (fst t) \<and> critical (fst t') \<and> \<not> logMutex st \<and> logMutex st'
            \<and> cout st' = cout st
            \<and> thread_lines flag lvl t = rest_out flag t' # thread_lines flag lvl t')"
proof (cases "(t, st)" rule: thread_step.cases)
  case (1 st0)
  with assms show ?thesis by simp
next
  case (2 c cs st0)
  with assms show ?thesis
    by (auto simp add: thread_lines_def rest_out_def log_body_not_critical out_of_log_body
        passes_def)
next
  case (3 acts cs st0)
  with assms(1) obtain c where b: "log_body c = ALock # acts"
    by (auto simp add: shape_def critical_Cons split: if_splits)
  from log_body_Cons(2) [OF b] have cr: "critical acts" .
  have line: "out_of flag acts = out_of flag (ALock # acts)"
    by simp
  from 3 assms cr show ?thesis
    by (auto simp add: thread_lines_def rest_out_def lock_guard_ctor_def critical_Cons
        split: if_splits)
next
  case (4 s acts cs st0)
  with assms(1) have cr: "critical (APut s # acts)"
    by (auto simp add: shape_def dest: log_body_Cons(1) Cons_log_body(1))
  with 4 assms show ?thesis
    by (auto simp add: thread_lines_def rest_out_def cout_put_def critical_Cons
        split: if_splits)
next
  case (5 i acts cs st0)
  with assms(1) have cr: "critical (APutInt i # acts)"
    by (auto simp add: shape_def dest: log_body_Cons(1) Cons_log_body(1))
  with 5 assms show ?thesis
    by (auto simp add: thread_lines_def rest_out_def cout_put_def cout_put_int_def critical_Cons
        split: if_splits)
next
  case (6 f l acts cs st0)
  with assms(1) have cr: "critical (ASite f l # acts)"
    by (auto simp add: shape_def dest: log_body_Cons(1) Cons_log_body(1))
  then have cr': "critical acts" "acts \<noteq> []"
    by (auto simp add: critical_Cons split: if_splits)
  from critical_site [OF cr'(1)] cr cr' 6 assms show ?thesis
    by (auto simp add: thread_lines_def rest_out_def)
next
  case (7 acts cs st0)
  with assms(1) have cr: "critical (AUnlock # acts)"
    by (auto simp add: shape_def dest: log_body_Cons(1) Cons_log_body(1))
  then have "acts = []"
    by (auto simp add: critical_Cons split: if_splits)
  with 7 assms show ?thesis
    by (auto simp add: thread_lines_def rest_out_def lock_guard_dtor_def)
qed

lemma no_critical_rest_out:
  "filter (\<lambda>t. critical (fst t)) xs = [] \<Longrightarrow> concat (map (rest_out flag) xs) = []"
  by (induction xs) (auto simp add: rest_out_def split: if_splits)

lemma lines_inv_step_split:
  assumes inv: "lines_inv flag lvl c0 L (xs @ t # ys, st)"
    and st: "thread_step t st = Some (t', st')"
  shows "lines_inv flag lvl c0 L (xs @ t' # ys, st')"
proof -
  from inv have set: "additionalInfo st = flag" "logLevel st = lvl"
    and sh: "list_all shape xs" "shape t" "list_all shape ys"
    by (simp_all add: lines_inv_def)
  from inv have "length (filter (\<lambda>t. critical (fst t)) (xs @ t # ys))
      = (if logMutex st then 1 else 0)"
    unfolding lines_inv_def fst_conv snd_conv by blast
  then have cnt: "length (filter (\<lambda>t. critical (fst t)) xs)
      + (if critical (fst t) then 1 else 0)
      + length (filter (\<lambda>t. critical (fst t)) ys) = (if logMutex st then 1 else 0)"
    by (cases "critical (fst t)") simp_all
  from inv obtain ls where
    out: "cout st @ concat (map (rest_out flag) xs) @ rest_out flag t
            @ concat (map (rest_out flag) ys) = c0 @ concat ls"
    and ms: "mset ls + (mset (concat (map (thread_lines flag lvl) xs))
            + mset (thread_lines flag lvl t)
            + mset (concat (map (thread_lines flag lvl) ys))) = L"
    by (auto simp add: lines_inv_def)
  from thread_step_settings [OF st] set
  have set': "additionalInfo st' = flag" "logLevel st' = lvl"
    by simp_all
  from thread_step_shape [OF sh(2) st] have sh': "shape t'" .
  from thread_step_effect [OF sh(2) st set]
  consider
    (hold) "critical (fst t)" "cout st' @ rest_out flag t' = cout st @ rest_out flag t"
      "thread_lines flag lvl t' = thread_lines flag lvl t"
      "if critical (fst t') then logMutex st' = logMutex st else \<not> logMutex st'"
  | (idle) "\<not> critical (fst t)" "\<not> critical (fst t')" "cout st' = cout st"
      "logMutex st' = logMutex st" "thread_lines flag lvl t' = thread_lines flag lvl t"
  | (take) "\<not> critical (fst t)" "critical (fst t')" "\<not> logMutex st" "logMutex st'"
      "cout st' = cout st" "thread_lines flag lvl t = rest_out flag t' # thread_lines flag lvl t'"
    by blast
  then show ?thesis
  proof cases
    case hold
    from cnt hold(1) have held: "logMutex st"
      by (cases "logMutex st") simp_all
    with cnt hold(1) have none: "filter (\<lambda>t. critical (fst t)) xs = []"
      "filter (\<lambda>t. critical (fst t)) ys = []"
      by simp_all
    from none have quiet: "concat (map (rest_out flag) xs) = []"
      "concat (map (rest_out flag) ys) = []"
      by (simp_all add: no_critical_rest_out)
    have cnt': "length (filter (\<lambda>t. critical (fst t)) (xs @ t' # ys))
        = (if logMutex st' then 1 else 0)"
      using none hold(4) held by (auto split: if_splits)
    have out': "cout st' @ concat (map (rest_out flag) (xs @ t' # ys)) = c0 @ concat ls"
      using out hold(2) by (simp add: quiet)
    have ms': "mset ls + mset (concat (map (thread_lines flag lvl) (xs @ t' # ys))) = L"
      using ms hold(3) by (simp add: ac_simps)
    from set' sh sh' cnt' out' ms' show ?thesis
      unfolding lines_inv_def by auto
  next
    case idle
    have cnt': "length (filter (\<lambda>t. critical (fst t)) (xs @ t' # ys))
        = (if logMutex st' then 1 else 0)"
      using cnt idle by simp
    have "rest_out flag t = []" "rest_out flag t' = []"
      using idle by (simp_all add: rest_out_def)
    then have out': "cout st' @ concat (map (rest_out flag) (xs @ t' # ys)) = c0 @ concat ls"
      using out idle(3) by simp
    have ms': "mset ls + mset (concat (map (thread_lines flag lvl) (xs @ t' # ys))) = L"
      using ms idle(5) by (simp add: ac_simps)
    from set' sh sh' cnt' out' ms' show ?thesis
      unfolding lines_inv_def by auto
  next
    case take
    with cnt have none: "filter (\<lambda>t. critical (fst t)) xs = []"
      "filter (\<lambda>t. critical (fst t)) ys = []"
      by (auto split: if_splits)
    from none have quiet: "concat (map (rest_out flag) xs) = []"
      "concat (map (rest_out flag) ys) = []"
      by (simp_all add: no_critical_rest_out)
    have cnt': "length (filter (\<lambda>t. critical (fst t)) (xs @ t' # ys))
        = (if logMutex st' then 1 else 0)"
      using none take by simp
    have "rest_out flag t = []"
      using take(1) by (simp add: rest_out_def)
    with out take(5)
    have out': "cout st' @ concat (map (rest_out flag) (xs @ t' # ys))
        = c0 @ concat (ls @ [rest_out flag t'])"
      by (simp add: quiet)
    have ms': "mset (ls @ [rest_out flag t'])
        + mset (concat (map (thread_lines flag lvl) (xs @ t' # ys))) = L"
      using ms take(6) by (simp add: ac_simps)
    from set' sh sh' cnt' out' ms' show ?thesis
      unfolding lines_inv_def by (auto simp del: mset_append concat_append)
  qed
qed

lemma lines_inv_step:
  assumes "lines_inv flag lvl c0 L (ts, st)" and "i < length ts"
    and "thread_step (ts ! i) st = Some (t', st')"
  shows "lines_inv flag lvl c0 L (ts[i := t'], st')"
proof -
  from assms(2) have "ts = take i ts @ ts ! i # drop (Suc i) ts"
    by (simp add: id_take_nth_drop)
  with assms(1) have "lines_inv flag lvl c0 L (take i ts @ ts ! i # drop (Suc i) ts, st)"
    by simp
  from lines_inv_step_split [OF this assms(3)] assms(2) show ?thesis
    by (simp add: upd_conv_take_nth_drop)
qed

lemma lines_inv_run:
  "lines_inv flag lvl c0 L cfg \<Longrightarrow> run_schedule sched cfg = Some cfg' \<Longrightarrow>
     lines_inv flag lvl c0 L cfg'"
proof (induction sched arbitrary: cfg)
  case Nil
  then show ?case by simp
next
  case (Cons i sched)
  obtain ts st where cfg: "cfg = (ts, st)"
    by (cases cfg)
  with Cons.prems(2) obtain t' st' where i: "i < length ts"
    and s: "thread_step (ts ! i) st = Some (t', st')"
    and r: "run_schedule sched (ts[i := t'], st') = Some cfg'"
    by (auto split: if_splits option.splits)
  from Cons.prems(1) cfg have "lines_inv flag lvl c0 L (ts[i := t'], st')"
    using lines_inv_step [OF _ i s] by simp
  from Cons.IH [OF this r] show ?case .
qed

lemma lines_inv_start:
  assumes "\<not> logMutex st0"
  shows "lines_inv (additionalInfo st0) (logLevel st0) (cout st0)
           (mset (map (call_line (additionalInfo st0)) (filter (passes (logLevel st0)) (concat css))))
           (start_threads css, st0)"
proof -
  have sh: "list_all shape (start_threads css)"
    by (simp add: start_threads_def list_all_iff shape_def)
  have cr: "filter (\<lambda>t. critical (fst t)) (start_threads css) = []"
    by (simp add: start_threads_def filter_empty_conv)
  have ro: "concat (map (rest_out flag) (start_threads css)) = []" for flag
    using cr by (rule no_critical_rest_out)
  have tl: "concat (map (thread_lines flag lvl) (start_threads css))
      = map (call_line flag) (filter (passes lvl) (concat css))" for flag lvl
    by (induction css) (simp_all add: start_threads_def thread_lines_def)
  show ?thesis
    unfolding lines_inv_def fst_conv snd_conv
    using assms sh cr by (simp add: ro tl)
qed

lemma finished_quiet:
  assumes "finished ts"
  shows "concat (map (rest_out flag) ts) = []"
    and "concat (map (thread_lines flag lvl) ts) = []"
  using assms by (induction ts) (simp_all add: finished_def rest_out_def thread_lines_def)

lemma lines_inv_finished:
  assumes "lines_inv flag lvl c0 L (ts, st)" and "finished ts"
  shows "\<exists>ls. cout st = c0 @ concat ls \<and> mset ls = L"
  using assms(1) unfolding lines_inv_def fst_conv snd_conv
  by (simp add: finished_quiet [OF assms(2)])

lemma lines_inv_prefix:
  assumes "lines_inv flag lvl c0 L (ts, st)"
  shows "\<exists>ls r. cout st @ r = c0 @ concat ls \<and> mset ls \<subseteq># L"
proof -
  from assms obtain ls where
    "cout st @ concat (map (rest_out flag) ts) = c0 @ concat ls"
    "mset ls + mset (concat (map (thread_lines flag lvl) ts)) = L"
    unfolding lines_inv_def fst_conv snd_conv by blast
  then have "cout st @ concat (map (rest_out flag) ts) = c0 @ concat ls \<and> mset ls \<subseteq># L"
    by auto
  then show ?thesis by blast
qed

lemma critical_enabled:
  assumes "critical (fst t)"
  shows "\<exists>r. thread_step t st = Some r"
  using assms
  by (cases "(t, st)" rule: thread_step.cases) (simp_all add: critical_Cons split: if_splits)

lemma free_enabled:
  assumes "shape t" and "t \<noteq> ([], [])" and "\<not> logMutex st"
  shows "\<exists>r. thread_step t st = Some r"
  using assms
  by (cases "(t, st)" rule: thread_step.cases) (simp_all add: lock_guard_ctor_def)

lemma lines_inv_progress:
  assumes inv: "lines_inv flag lvl c0 L (ts, st)" and un: "\<not> finished ts"
  shows "\<exists>i t' st'. i < length ts \<and> thread_step (ts ! i) st = Some (t', st')"
proof (cases "logMutex st")
  case True
  with inv have "length (filter (\<lambda>t. critical (fst t)) ts) = 1"
    by (simp add: lines_inv_def)
  then have "filter (\<lambda>t. critical (fst t)) ts \<noteq> []"
    by auto
  then obtain t where "t \<in> set ts" and "critical (fst t)"
    by (auto simp add: filter_empty_conv)
  then obtain i where "i < length ts" and "critical (fst (ts ! i))"
    by (auto simp add: in_set_conv_nth)
  with critical_enabled [of "ts ! i" st] show ?thesis
    by auto
next
  case False
  from un obtain t where "t \<in> set ts" and "t \<noteq> ([], [])"
    by (auto simp add: finished_def list_all_iff)
  then obtain i where i: "i < length ts" and ne: "ts ! i \<noteq> ([], [])"
    by (auto simp add: in_set_conv_nth)
  from inv i have "shape (ts ! i)"
    by (simp add: lines_inv_def list_all_length)
  from free_enabled [OF this ne False] i show ?thesis
    by auto
qed

lemma log_body_work: "sum_list (map act_weight (log_body c)) = 16"
  by (cases c) simp

lemma thread_step_work:
  assumes "thread_step t st = Some (t', st')"
  shows "thread_work t' < thread_work t"
  using assms
  by (cases "(t, st)" rule: thread_step.cases)
     (auto simp add: log_body_work split: if_splits option.splits)

lemma update_work:
  assumes "i < length ts" and "thread_work t' < thread_work (ts ! i)"
  shows "sum_list (map thread_work (ts[i := t'])) < sum_list (map thread_work ts)"
proof -
  have "sum_list (map thread_work ts)
      = sum_list (map thread_work (take i ts @ ts ! i # drop (Suc i) ts))"
    using assms(1) by (simp add: id_take_nth_drop [symmetric])
  moreover have "sum_list (map thread_work (ts[i := t']))
      = sum_list (map thread_work (take i ts @ t' # drop (Suc i) ts))"
    using assms(1) by (simp add: upd_conv_take_nth_drop)
  ultimately show ?thesis
    using assms(2) by simp
qed

lemma lines_inv_completes:
  assumes "lines_inv flag lvl c0 L (ts, st)"
  shows "\<exists>sched ts' st'. run_schedule sched (ts, st) = Some (ts', st') \<and> finished ts'"
  using assms
proof (induction "sum_list (map thread_work ts)" arbitrary: ts st rule: less_induct)
  case less
  show ?case
  proof (cases "finished ts")
    case True
    then have "run_schedule [] (ts, st) = Some (ts, st) \<and> finished ts"
      by simp
    then show ?thesis by blast
  next
    case False
    from lines_inv_progress [OF less.prems False]
    obtain i t' st' where i: "i < length ts" and s: "thread_step (ts ! i) st = Some (t', st')"
      by blast
    from update_work [OF i thread_step_work [OF s]]
    have "sum_list (map thread_work (ts[i := t'])) < sum_list (map thread_work ts)" .
    from less.hyps [OF this lines_inv_step [OF less.prems i s]]
    obtain sched ts' st'' where
      "run_schedule sched (ts[i := t'], st') = Some (ts', st'')" and "finished ts'"
      by blast
    with i s have "run_schedule (i # sched) (ts, st) = Some (ts', st'') \<and> finished ts'"
      by simp
    then show ?thesis by blast
  qed
qed

lemma all_calls_pass:
  assumes "list_all (\<lambda>cs. length cs = M \<and> list_all (passes lvl) cs) css"
  shows "filter (passes lvl) (concat css) = concat css"
    and "length (concat css) = length css * M"
  using assms by (induction css) (simp_all add: list_all_iff)

text \<open>
  Claim C8. Let \<open>N\<close> threads (the length of \<open>css\<close>) each make \<open>M\<close> calls of the logging routine
  at severities not below the minimum level, starting with the mutex free. Then in every
  interleaving of their steps: when all threads are done, the output is the output of the
  start followed by \<open>N * M\<close> whole lines, one for each call, in some order, with no character
  of one line inside another; at every moment of the execution the output is the beginning
  of such a sequence of whole lines; and the execution can always be continued until all
  threads are done (no thread stays blocked on the mutex).
\<close>

theorem concurrent_calls_whole_lines:
  assumes "\<not> logMutex st0"
    and "list_all (\<lambda>cs. length cs = M \<and> list_all (passes (logLevel st0)) cs) css"
  shows "(\<forall>sched ts' st'.
            run_schedule sched (start_threads css, st0) = Some (ts', st') \<and> finished ts' \<longrightarrow>
            (\<exists>ls. cout st' = cout st0 @ concat ls
                \<and> mset ls = mset (map (call_line (additionalInfo st0)) (concat css))
                \<and> length ls = length css * M))
       \<and> (\<forall>sched ts1 st1.
            run_schedule sched (start_threads css, st0) = Some (ts1, st1) \<longrightarrow>
            (\<exists>ls r. cout st1 @ r = cout st0 @ concat ls
                \<and> mset ls \<subseteq># mset (map (call_line (additionalInfo st0)) (concat css)))
            \<and> (\<exists>sched' ts' st'. run_schedule sched' (ts1, st1) = Some (ts', st') \<and> finished ts'))"
proof -
  let ?L = "mset (map (call_line (additionalInfo st0)) (concat css))"
  note pass = all_calls_pass [OF assms(2)]
  have start: "lines_inv (additionalInfo st0) (logLevel st0) (cout st0) ?L (start_threads css, st0)"
    using lines_inv_start [OF assms(1), of css] by (simp add: pass(1))
  have reach: "lines_inv (additionalInfo st0) (logLevel st0) (cout st0) ?L (ts1, st1)"
    if "run_schedule sched (start_threads css, st0) = Some (ts1, st1)" for sched ts1 st1
    using lines_inv_run [OF start that] .
  have final: "\<exists>ls. cout st' = cout st0 @ concat ls \<and> mset ls = ?L \<and> length ls = length css * M"
    if r: "run_schedule sched (start_threads css, st0) = Some (ts', st')" and f: "finished ts'"
    for sched ts' st'
  proof -
    from lines_inv_finished [OF reach [OF r] f]
    obtain ls where ls: "cout st' = cout st0 @ concat ls" "mset ls = ?L"
      by blast
    from ls(2) have "length ls = length (map (call_line (additionalInfo st0)) (concat css))"
      by (rule mset_eq_length)
    with pass(2) have "length ls = length css * M"
      by simp
    with ls show ?thesis by blast
  qed
  have prefix: "\<exists>ls r. cout st1 @ r = cout st0 @ concat ls \<and> mset ls \<subseteq># ?L"
    if "run_schedule sched (start_threads css, st0) = Some (ts1, st1)" for sched ts1 st1
    using lines_inv_prefix [OF reach [OF that]] .
  have complete: "\<exists>sched' ts' st'. run_schedule sched' (ts1, st1) = Some (ts', st') \<and> finished ts'"
    if "run_schedule sched (start_threads css, st0) = Some (ts1, st1)" for sched ts1 st1
    using lines_inv_completes [OF reach [OF that]] .
  from final prefix complete show ?thesis
    by blast
qed

theorem concurrent_calls_whole_lines_witness:
  "\<not> logMutex initial_state
   \<and> run_schedule [0, 1, 1, 0]
        (start_threads
           [[LogCall INFO ''INFO'' ''37'' ''a'' ''f'' 1], [LogCall WARN ''WARN'' ''33'' ''b'' ''g'' 2]],
         initial_state) = None
   \<and> list_all (\<lambda>cs. length cs = 1 \<and> list_all (passes (logLevel initial_state)) cs)
        [[LogCall INFO ''INFO'' ''37'' ''a'' ''f'' 1], [LogCall WARN ''WARN'' ''33'' ''b'' ''g'' 2]]
   \<and> (\<exists>ts' st'.
         run_schedule [0, 1, 1, 1, 1, 1, 1, 1, 1, 1, 1, 1, 1, 1, 0, 0, 0, 0, 0, 0, 0, 0, 0, 0, 0, 0]
           (start_threads
              [[LogCall INFO ''INFO'' ''37'' ''a'' ''f'' 1], [LogCall WARN ''WARN'' ''33'' ''b'' ''g'' 2]],
            initial_state) = Some (ts', st')
         \<and> finished ts'
         \<and> cout st' = CHR 0x1B # ''[33m[WARN] b'' @ [CHR 0x0A, CHR 0x1B] @ ''[0m''
                       @ CHR 0x1B # ''[37m[INFO] a'' @ [CHR 0x0A, CHR 0x1B] @ ''[0m''
         \<and> (\<exists>ls. cout st' = cout initial_state @ concat ls
               \<and> mset ls = mset (map (call_line (additionalInfo initial_state))
                    (concat [[LogCall INFO ''INFO'' ''37'' ''a'' ''f'' 1],
                             [LogCall WARN ''WARN'' ''33'' ''b'' ''g'' 2]]))
               \<and> length ls = 2 * 1))"
proof -
  let ?css = "[[LogCall INFO ''INFO'' ''37'' ''a'' ''f'' 1], [LogCall WARN ''WARN'' ''33'' ''b'' ''g'' 2]]"
  let ?sched = "[0, 1, 1, 1, 1, 1, 1, 1, 1, 1, 1, 1, 1, 1, 0, 0, 0, 0, 0, 0, 0, 0, 0, 0, 0, 0]"
  let ?out = "CHR 0x1B # ''[33m[WARN] b'' @ [CHR 0x0A, CHR 0x1B] @ ''[0m''
                       @ CHR 0x1B # ''[37m[INFO] a'' @ [CHR 0x0A, CHR 0x1B] @ ''[0m''"
  have free: "\<not> logMutex initial_state"
    by (simp add: initial_state_def)
  have calls: "list_all (\<lambda>cs. length cs = 1 \<and> list_all (passes (logLevel initial_state)) cs) ?css"
    by (simp add: passes_def initial_state_def)
  have run: "run_schedule ?sched (start_threads ?css, initial_state)
      = Some ([([], []), ([], [])], initial_state\<lparr>cout := ?out\<rparr>)"
    by (simp add: start_threads_def initial_state_def lock_guard_ctor_def lock_guard_dtor_def
        cout_put_def cout_put_int_def ESC_def newline_def)
  have fin: "finished [([], []), ([], [])]"
    by (simp add: finished_def)
  have blocked: "run_schedule [0, 1, 1, 0] (start_threads ?css, initial_state) = None"
    by (simp add: start_threads_def initial_state_def lock_guard_ctor_def)
  let ?stf = "initial_state\<lparr>cout := ?out\<rparr>"
  from concurrent_calls_whole_lines [OF free calls] run fin
  obtain ls where out: "cout ?stf = cout initial_state @ concat ls"
    and perm: "mset ls = mset (map (call_line (additionalInfo initial_state)) (concat ?css))"
    and len: "length ls = length ?css * 1"
    by blast
  from len have len': "length ls = 2 * 1"
    by simp
  have "cout ?stf = ?out"
    by simp
  with run fin out perm len'
  have "\<exists>ts' st'. run_schedule ?sched (start_threads ?css, initial_state) = Some (ts', st')
         \<and> finished ts' \<and> cout st' = ?out
         \<and> (\<exists>ls. cout st' = cout initial_state @ concat ls
               \<and> mset ls = mset (map (call_line (additionalInfo initial_state)) (concat ?css))
               \<and> length ls = 2 * 1)"
    by blast
  with free blocked calls show ?thesis
    by blast
qed

end
